theory Spec2Isabelle
  imports Complex_Main "HOL-Library.Word"
begin

section \<open>Chafon H103 web tag reader: the capture pipeline of App.tsx\<close>

text \<open>
  The development embeds the capture pipeline of \<^verbatim>\<open>src/App.tsx\<close>: \<^verbatim>\<open>addTag\<close>,
  \<^verbatim>\<open>handleLine\<close>, \<^verbatim>\<open>onKeyDown\<close>, the \<^verbatim>\<open>characteristicvaluechanged\<close> listener
  installed by \<^verbatim>\<open>connectBLE\<close>, \<^verbatim>\<open>clearTags\<close> and the two toggles. Rendering, the
  Bluetooth handshake and the CSV download are left out.
\<close>

subsection \<open>JavaScript values\<close>

text \<open>
  A JavaScript string is a sequence of UTF-16 code units; \<^verbatim>\<open>length\<close>, \<^verbatim>\<open>slice\<close>,
  \<^verbatim>\<open>===\<close> and a regular expression without the \<^verbatim>\<open>u\<close> flag all work on code units.
  A \<^verbatim>\<open>Uint8Array\<close> is a sequence of bytes.
\<close>

type_synonym jschar = "16 word"
type_synonym jsstring = "jschar list"
type_synonym byte = "8 word"

text \<open>String literals of the source, written as Isabelle strings (all of them are ASCII).\<close>

definition str :: "string \<Rightarrow> jsstring" where
  "str s = map of_char s"

text \<open>
  \<^verbatim>\<open>xs.slice(start, end)\<close> of \<^verbatim>\<open>Array\<close>, \<^verbatim>\<open>Uint8Array\<close> and \<^verbatim>\<open>String\<close>: a negative
  index counts from the end, both indices are clamped to the length, and an empty range
  gives the empty sequence. It never raises.
\<close>

definition slice :: "'a list \<Rightarrow> int \<Rightarrow> int \<Rightarrow> 'a list" where
  "slice xs start end =
     (let len = int (length xs);
          k = (if start < 0 then max (len + start) 0 else min start len);
          fin = (if end < 0 then max (len + end) 0 else min end len);
          count = max (fin - k) 0
      in take (nat count) (drop (nat k) xs))"

text \<open>\<^verbatim>\<open>xs.indexOf(v)\<close>: the first index holding \<^verbatim>\<open>v\<close>, or \<^verbatim>\<open>-1\<close>.\<close>

fun indexOf :: "'a list \<Rightarrow> 'a \<Rightarrow> int" where
  "indexOf [] v = -1"
| "indexOf (x # xs) v =
     (if x = v then 0 else (let i = indexOf xs v in if i = -1 then -1 else i + 1))"

text \<open>
  \<^verbatim>\<open>s.trim()\<close> removes the white space and line terminators of ECMAScript at both ends:
  TAB, LF, VT, FF, CR, SPACE, NBSP, U+1680, U+2000 to U+200A, U+2028, U+2029, U+202F,
  U+205F, U+3000 and U+FEFF.
\<close>

definition isWhiteSpace :: "jschar \<Rightarrow> bool" where
  "isWhiteSpace c \<longleftrightarrow>
     (0x09 \<le> c \<and> c \<le> 0x0D) \<or> c = 0x20 \<or> c = 0xA0 \<or> c = 0x1680 \<or>
     (0x2000 \<le> c \<and> c \<le> 0x200A) \<or> c = 0x2028 \<or> c = 0x2029 \<or> c = 0x202F \<or>
     c = 0x205F \<or> c = 0x3000 \<or> c = 0xFEFF"

definition trim :: "jsstring \<Rightarrow> jsstring" where
  "trim s = rev (dropWhile isWhiteSpace (rev (dropWhile isWhiteSpace s)))"

text \<open>
  A character class of a regular expression: single characters and ranges of code units,
  possibly negated (\<^verbatim>\<open>[^...]\<close>).
\<close>

datatype class_item = Single jschar | Range jschar jschar

fun item_matches :: "class_item \<Rightarrow> jschar \<Rightarrow> bool" where
  "item_matches (Single a) c \<longleftrightarrow> c = a"
| "item_matches (Range a b) c \<longleftrightarrow> a \<le> c \<and> c \<le> b"

definition class_matches :: "bool \<Rightarrow> class_item list \<Rightarrow> jschar \<Rightarrow> bool" where
  "class_matches negated items c \<longleftrightarrow> (list_ex (\<lambda>i. item_matches i c) items \<noteq> negated)"

text \<open>
  \<^verbatim>\<open>s.replace(/[class]/g, repl)\<close> for a pattern that is one character class: the string
  is scanned from the left and every code unit the class matches is replaced by
  \<^verbatim>\<open>repl\<close> (which holds no \<^verbatim>\<open>$\<close> pattern here).
\<close>

fun replace_class :: "(jschar \<Rightarrow> bool) \<Rightarrow> jsstring \<Rightarrow> jsstring \<Rightarrow> jsstring" where
  "replace_class m repl [] = []"
| "replace_class m repl (c # cs) =
     (if m c then repl @ replace_class m repl cs else c # replace_class m repl cs)"

text \<open>\<^verbatim>\<open>n.toString(16)\<close> of a non-negative integer: lower-case digits, no leading zero.\<close>

definition digitChar :: "nat \<Rightarrow> jschar" where
  "digitChar d = (if d < 10 then 0x30 + of_nat d else 0x61 + of_nat (d - 10))"

fun toString16 :: "nat \<Rightarrow> jsstring" where
  "toString16 n =
     (if n < 16 then [digitChar n] else toString16 (n div 16) @ [digitChar (n mod 16)])"

declare toString16.simps [simp del]

text \<open>\<^verbatim>\<open>s.padStart(n, fill)\<close>: the fill string is repeated and cut to the missing length.\<close>

definition padStart :: "jsstring \<Rightarrow> nat \<Rightarrow> jsstring \<Rightarrow> jsstring" where
  "padStart s n fill =
     (if n \<le> length s \<or> fill = [] then s
      else take (n - length s) (concat (replicate (n - length s) fill)) @ s)"

text \<open>
  \<^verbatim>\<open>s.toUpperCase()\<close> on the letters \<^verbatim>\<open>a\<close> to \<^verbatim>\<open>z\<close>; digits are unchanged. The source
  applies it only to the output of \<^verbatim>\<open>toString(16)\<close> and \<^verbatim>\<open>padStart(2, "0")\<close>, whose
  characters are \<^verbatim>\<open>0-9a-f\<close> (lemma \<open>hex_lower_chars\<close> below), so the Unicode case
  mapping of other characters is not needed.
\<close>

definition toUpperCase :: "jsstring \<Rightarrow> jsstring" where
  "toUpperCase s = map (\<lambda>c. if 0x61 \<le> c \<and> c \<le> 0x7A then c - 0x20 else c) s"

subsection \<open>Tag records and the application state\<close>

text \<open>
  The element type of \<^verbatim>\<open>tags\<close>:
  \<^verbatim>\<open>{ id: number; epc: string; rssi?: number; ts: number }\<close>.
  The field \<^verbatim>\<open>id\<close> is called \<open>tag_id\<close> here.
\<close>

record tag =
  tag_id :: real
  epc :: jsstring
  rssi :: "real option"
  ts :: nat

text \<open>
  What one call of \<^verbatim>\<open>addTag\<close> reads from its environment: the two calls of
  \<^verbatim>\<open>Date.now()\<close> and the call of \<^verbatim>\<open>Math.random()\<close>, in evaluation order. The sum
  \<^verbatim>\<open>Date.now() + Math.random()\<close> is taken exactly; no property below depends on it.
\<close>

record env =
  now_id :: nat
  random :: real
  now_ts :: nat

text \<open>The \<^verbatim>\<open>useState\<close> cells the pipeline reads and writes.\<close>

record app_state =
  listening :: bool
  tags :: "tag list"
  buffer :: jsstring
  autoDedup :: bool

definition init :: app_state where
  "init = \<lparr>listening = True, tags = [], buffer = [], autoDedup = True\<rparr>"

subsection \<open>addTag\<close>

text \<open>
  The updater that \<^verbatim>\<open>addTag\<close> hands to \<^verbatim>\<open>setTags\<close>, together with the early return on
  an empty trimmed string. \<open>dedup\<close> is the value of \<^verbatim>\<open>autoDedup\<close> that the closure
  holds.
\<close>

definition new_tag :: "env \<Rightarrow> jsstring \<Rightarrow> real option \<Rightarrow> tag" where
  "new_tag e c r = \<lparr>tag_id = real (now_id e) + random e, epc = c, rssi = r, ts = now_ts e\<rparr>"

definition addTag :: "bool \<Rightarrow> env \<Rightarrow> jsstring \<Rightarrow> real option \<Rightarrow> tag list \<Rightarrow> tag list" where
  "addTag dedup e epcRaw r prev =
     (let c = trim epcRaw in
      if c = [] then prev
      else if dedup \<and> list_ex (\<lambda>t. epc t = c) prev then prev
      else slice (new_tag e c r # prev) 0 2000)"

subsection \<open>handleLine and onKeyDown\<close>

text \<open>The pattern \<^verbatim>\<open>/[^0-9a-zA-Z\-_:]/g\<close> of \<^verbatim>\<open>handleLine\<close>.\<close>

definition epc_filter :: "jschar \<Rightarrow> bool" where
  "epc_filter =
     class_matches True
       [Range 0x30 0x39, Range 0x61 0x7A, Range 0x41 0x5A, Single 0x2D, Single 0x5F, Single 0x3A]"

definition normalize :: "jsstring \<Rightarrow> jsstring" where
  "normalize line = replace_class epc_filter [] line"

definition handleLine :: "env \<Rightarrow> jsstring \<Rightarrow> app_state \<Rightarrow> app_state" where
  "handleLine e line s =
     (if \<not> listening s then s
      else let cleaned = normalize line in
           if cleaned \<noteq> [] then s\<lparr>tags := addTag (autoDedup s) e cleaned None (tags s)\<rparr>
           else s)"

text \<open>\<^verbatim>\<open>onKeyDown\<close>, on the value of \<^verbatim>\<open>e.key\<close>.\<close>

definition onKeyDown :: "env \<Rightarrow> jsstring \<Rightarrow> app_state \<Rightarrow> app_state" where
  "onKeyDown e key s =
     (if \<not> listening s then s
      else if key = str ''Enter'' then (handleLine e (buffer s) s)\<lparr>buffer := []\<rparr>
      else if length key = 1 then s\<lparr>buffer := buffer s @ key\<rparr>
      else if key = str ''Backspace'' then s\<lparr>buffer := slice (buffer s) 0 (-1)\<rparr>
      else s)"

subsection \<open>The notification listener of connectBLE\<close>

text \<open>
  The body of the listener between \<^verbatim>\<open>data.indexOf(0xE2)\<close> and the call of
  \<^verbatim>\<open>addTag\<close>: \<open>None\<close> when the marker is absent.
\<close>

definition hexByte :: "byte \<Rightarrow> jsstring" where
  "hexByte b = padStart (toString16 (unat b)) 2 (str ''0'')"

definition parseNotification :: "byte list \<Rightarrow> jsstring option" where
  "parseNotification data =
     (let idx = indexOf data 0xE2 in
      if idx \<noteq> -1 then
        let epcBytes = slice data idx (idx + 12)
        in Some (toUpperCase (concat (map hexByte epcBytes)))
      else None)"

text \<open>
  The listener itself. \<open>v\<close> is \<^verbatim>\<open>event.target.value\<close> (\<open>None\<close> when it is null) as
  the bytes of its buffer. The listener is created inside \<^verbatim>\<open>connectBLE\<close> and keeps the
  \<^verbatim>\<open>addTag\<close> of the render in which \<^verbatim>\<open>connectBLE\<close> ran, so \<open>dedup\<close> is the value
  that \<^verbatim>\<open>autoDedup\<close> had then. The listener does not read \<^verbatim>\<open>listening\<close>.
\<close>

definition onCharacteristicValueChanged ::
  "bool \<Rightarrow> env \<Rightarrow> byte list option \<Rightarrow> app_state \<Rightarrow> app_state" where
  "onCharacteristicValueChanged dedup e v s =
     (case v of
        None \<Rightarrow> s
      | Some data \<Rightarrow>
          (case parseNotification data of
             Some c \<Rightarrow> s\<lparr>tags := addTag dedup e c None (tags s)\<rparr>
           | None \<Rightarrow> s))"

subsection \<open>Events\<close>

text \<open>
  The other writers of the state: \<^verbatim>\<open>clearTags\<close>, the pause button
  (\<^verbatim>\<open>setListening(v => !v)\<close>) and the check box (\<^verbatim>\<open>setAutoDedup(e.target.checked)\<close>).
\<close>

definition clearTags :: "app_state \<Rightarrow> app_state" where
  "clearTags s = s\<lparr>tags := []\<rparr>"

datatype event =
    KeyDown jsstring
  | CharacteristicValueChanged bool "byte list option"
  | ToggleListening
  | SetAutoDedup bool
  | ClearTags

fun step :: "env \<Rightarrow> event \<Rightarrow> app_state \<Rightarrow> app_state" where
  "step e (KeyDown key) s = onKeyDown e key s"
| "step e (CharacteristicValueChanged dedup v) s = onCharacteristicValueChanged dedup e v s"
| "step e ToggleListening s = s\<lparr>listening := \<not> listening s\<rparr>"
| "step e (SetAutoDedup b) s = s\<lparr>autoDedup := b\<rparr>"
| "step e ClearTags s = clearTags s"

fun run :: "(env \<times> event) list \<Rightarrow> app_state \<Rightarrow> app_state" where
  "run [] s = s"
| "run ((e, ev) # evs) s = run evs (step e ev s)"

subsection \<open>The closure of the notification listener\<close>

text \<open>
  \<^verbatim>\<open>connectBLE\<close> as far as the pipeline sees it. The listener is an arrow function
  written inside \<^verbatim>\<open>connectBLE\<close>; the \<^verbatim>\<open>addTag\<close> it calls is the one of the render in
  which the Connect button was clicked, and that \<^verbatim>\<open>addTag\<close> reads that render's
  \<^verbatim>\<open>autoDedup\<close>. So a connection fixes the flag its notifications are handled with:
  \<open>listener\<close> is \<open>None\<close> before a connection and \<open>Some\<close> of the value of
  \<^verbatim>\<open>autoDedup\<close> at the click afterwards. The handshake is taken to succeed. The wedge
  handlers are made anew at every render and read the current cells.
\<close>

record session =
  app :: app_state
  listener :: "bool option"

definition start :: session where
  "start = \<lparr>app = init, listener = None\<rparr>"

definition connectBLE :: "session \<Rightarrow> session" where
  "connectBLE c = c\<lparr>listener := Some (autoDedup (app c))\<rparr>"

datatype action =
    Connect
  | Notification "byte list option"
  | Key jsstring
  | Pause
  | Dedup bool
  | Clear

fun act :: "env \<Rightarrow> action \<Rightarrow> session \<Rightarrow> session" where
  "act e Connect c = connectBLE c"
| "act e (Notification v) c =
     (case listener c of
        None \<Rightarrow> c
      | Some d \<Rightarrow> c\<lparr>app := step e (CharacteristicValueChanged d v) (app c)\<rparr>)"
| "act e (Key k) c = c\<lparr>app := step e (KeyDown k) (app c)\<rparr>"
| "act e Pause c = c\<lparr>app := step e ToggleListening (app c)\<rparr>"
| "act e (Dedup b) c = c\<lparr>app := step e (SetAutoDedup b) (app c)\<rparr>"
| "act e Clear c = c\<lparr>app := step e ClearTags (app c)\<rparr>"

fun acts :: "(env \<times> action) list \<Rightarrow> session \<Rightarrow> session" where
  "acts [] c = c"
| "acts ((e, a) # as) c = acts as (act e a c)"

text \<open>A sequence of offers to the buffer: calls of \<^verbatim>\<open>addTag\<close>, each with its closure's flag.\<close>

record offer =
  o_dedup :: bool
  o_env :: env
  o_epc :: jsstring
  o_rssi :: "real option"

fun offers :: "offer list \<Rightarrow> tag list \<Rightarrow> tag list" where
  "offers [] prev = prev"
| "offers (x # xs) prev = offers xs (addTag (o_dedup x) (o_env x) (o_epc x) (o_rssi x) prev)"

subsection \<open>The specification's vocabulary\<close>

text \<open>
  The character set \<^verbatim>\<open>[0-9a-zA-Z-_:]\<close> of the specification's normalizer, written out
  character by character.
\<close>

definition spec_charset :: "jschar set" where
  "spec_charset =
     set (str ''0123456789abcdefghijklmnopqrstuvwxyzABCDEFGHIJKLMNOPQRSTUVWXYZ-_:'')"

text \<open>
  The specification's encoding of an identifier field: upper-case hexadecimal, two digits
  for each byte, no separator.
\<close>

definition spec_hex_digits :: jsstring where
  "spec_hex_digits = str ''0123456789ABCDEF''"

definition spec_hex_byte :: "byte \<Rightarrow> jsstring" where
  "spec_hex_byte b = [spec_hex_digits ! (unat b div 16), spec_hex_digits ! (unat b mod 16)]"

definition spec_hex :: "byte list \<Rightarrow> jsstring" where
  "spec_hex bs = concat (map spec_hex_byte bs)"

section \<open>Properties\<close>

subsection \<open>slice and indexOf\<close>

lemma slice_front: "0 \<le> n \<Longrightarrow> slice xs 0 n = take (nat n) xs"
  by (simp add: slice_def Let_def min_def max_def)

lemma slice_butlast: "slice xs 0 (- 1) = butlast xs"
  by (cases xs) (simp_all add: slice_def Let_def butlast_conv_take max_def)

lemma slice_window:
  "0 \<le> i \<Longrightarrow> 0 \<le> n \<Longrightarrow> slice xs i (i + n) = take (nat n) (drop (nat i) xs)"
  by (auto simp add: slice_def Let_def min_def max_def)

lemma indexOf_ge: "- 1 \<le> indexOf xs v"
  by (induction xs) (auto simp: Let_def)

lemma indexOf_absent: "indexOf xs v = - 1 \<longleftrightarrow> v \<notin> set xs"
proof (induction xs)
  case Nil
  show ?case by simp
next
  case (Cons x xs)
  from indexOf_ge [of xs v] have "indexOf xs v + 1 \<noteq> - 1" by arith
  with Cons show ?case by (simp add: Let_def)
qed

lemma indexOf_found:
  "indexOf xs v = int i \<Longrightarrow> i < length xs \<and> xs ! i = v \<and> v \<notin> set (take i xs)"
proof (induction xs arbitrary: i)
  case Nil
  then show ?case by simp
next
  case (Cons x xs)
  show ?case
  proof (cases "x = v")
    case True
    with Cons.prems show ?thesis by simp
  next
    case False
    with Cons.prems have ne: "indexOf xs v \<noteq> - 1" and eq: "indexOf xs v + 1 = int i"
      by (auto simp: Let_def split: if_splits)
    from eq indexOf_ge [of xs v] ne obtain j where j: "i = Suc j" "indexOf xs v = int j"
      by (cases i) auto
    from Cons.IH [OF j(2)] False j(1) show ?thesis by simp
  qed
qed

subsection \<open>The normalizer\<close>

lemma replace_class_filter: "replace_class m [] s = filter (\<lambda>c. \<not> m c) s"
  by (induction s) auto

lemma epc_filter_iff: "epc_filter c \<longleftrightarrow> c \<notin> spec_charset"
  apply (simp add: epc_filter_def class_matches_def spec_charset_def str_def)
  apply (simp only: word_le_nat_alt word_unat_eq_iff)
  apply simp
  apply arith
  done

lemma normalize_filter: "normalize s = filter (\<lambda>c. c \<in> spec_charset) s"
  by (simp add: normalize_def replace_class_filter epc_filter_iff)

text \<open>
  Claim C5. For every string \<open>s\<close>, \<open>normalize s\<close> is \<open>s\<close> with exactly the characters
  outside \<^verbatim>\<open>[0-9a-zA-Z-_:]\<close> removed and the order of the others kept; so every
  character of the result is in the set, and the result may be empty (as for
  \<^verbatim>\<open>". #!"\<close>), which is an ordinary return value.
\<close>

theorem normalize_strips_exactly:
  "normalize s = filter (\<lambda>c. c \<in> spec_charset) s \<and>
   set (normalize s) \<subseteq> spec_charset \<and>
   normalize (str ''. #!'') = []"
proof -
  have "normalize (str ''. #!'') = []" by code_simp
  then show ?thesis by (auto simp: normalize_filter)
qed

text \<open>
  Claim C6. Normalization is idempotent: normalizing a normalized string changes
  nothing.
\<close>

theorem normalize_idempotent: "normalize (normalize s) = normalize s"
  by (simp add: normalize_filter)

subsection \<open>The notification parser\<close>

text \<open>
  Claim C4. The 14-byte payload 01 E2 11 22 33 44 55 66 77 88 99 AA BB CC yields the
  identifier \<^verbatim>\<open>E2112233445566778899AABB\<close>: the marker is found at offset 1, twelve
  bytes are taken from there and written as upper-case hexadecimal without separator.
\<close>

theorem parse_marker_example:
  "parseNotification
     [0x01, 0xE2, 0x11, 0x22, 0x33, 0x44, 0x55, 0x66, 0x77, 0x88, 0x99, 0xAA, 0xBB, 0xCC]
   = Some (str ''E2112233445566778899AABB'')"
  by code_simp

subsection \<open>Offers to the buffer\<close>

lemma slice_2000: "slice xs 0 2000 = take 2000 xs"
  using slice_front [of 2000 xs] by simp

lemma list_ex_epc: "list_ex (\<lambda>t. epc t = c) prev \<longleftrightarrow> c \<in> epc ` set prev"
  by (auto simp: list_ex_iff)

lemma addTag_reject: "trim raw \<in> epc ` set prev \<Longrightarrow> addTag True e raw r prev = prev"
  by (simp add: addTag_def Let_def list_ex_epc)

lemma addTag_empty: "trim raw = [] \<Longrightarrow> addTag d e raw r prev = prev"
  by (simp add: addTag_def)

lemma addTag_insert:
  "trim raw \<noteq> [] \<Longrightarrow> \<not> (d \<and> trim raw \<in> epc ` set prev) \<Longrightarrow>
   addTag d e raw r prev = new_tag e (trim raw) r # take 1999 prev"
  by (auto simp add: addTag_def Let_def list_ex_epc slice_2000)

lemma addTag_cases:
  "addTag d e raw r prev = prev \<or>
   addTag d e raw r prev = new_tag e (trim raw) r # take 1999 prev"
  by (auto simp add: addTag_def Let_def slice_2000)

lemma addTag_length: "length prev \<le> 2000 \<Longrightarrow> length (addTag d e raw r prev) \<le> 2000"
  using addTag_cases [of d e raw r prev] by auto

lemma epc_new_tag: "epc (new_tag e c r) = c"
  by (simp add: new_tag_def)

lemma ts_new_tag: "ts (new_tag e c r) = now_ts e"
  by (simp add: new_tag_def)

lemma addTag_distinct:
  assumes "distinct (map epc prev)"
  shows "distinct (map epc (addTag True e raw r prev))"
proof (cases "trim raw \<noteq> [] \<and> trim raw \<notin> epc ` set prev")
  case True
  then have "addTag True e raw r prev = new_tag e (trim raw) r # take 1999 prev"
    by (simp add: addTag_insert)
  moreover have "distinct (map epc (take 1999 prev))"
    using assms by (simp add: take_map [symmetric])
  moreover have "trim raw \<notin> epc ` set (take 1999 prev)"
    using True set_take_subset [of 1999 prev] by auto
  ultimately show ?thesis by (simp add: epc_new_tag)
next
  case False
  then have "addTag True e raw r prev = prev"
    by (auto simp: addTag_empty addTag_reject)
  with assms show ?thesis by simp
qed

lemma offers_distinct:
  "\<forall>x\<in>set os. o_dedup x \<Longrightarrow> distinct (map epc prev) \<Longrightarrow> distinct (map epc (offers os prev))"
  by (induction os arbitrary: prev) (simp_all add: addTag_distinct)

lemma offers_length: "length prev \<le> 2000 \<Longrightarrow> length (offers os prev) \<le> 2000"
  by (induction os arbitrary: prev) (simp_all add: addTag_length)

lemma trim_idem: "trim (trim s) = trim s"
proof -
  define t where "t = dropWhile isWhiteSpace s"
  define u where "u = rev (dropWhile isWhiteSpace (rev t))"
  have u: "trim s = u" by (simp add: trim_def t_def u_def)
  have "dropWhile isWhiteSpace u = u"
  proof (cases "u = []")
    case True
    then show ?thesis by simp
  next
    case False
    then have "t \<noteq> []" by (auto simp: u_def)
    then have "\<not> isWhiteSpace (hd t)" unfolding t_def by (rule hd_dropWhile)
    moreover obtain k where "u = take k t"
      unfolding u_def by (metis dropWhile_eq_drop rev_drop rev_rev_ident)
    with False have "hd u = hd t" by (cases t; cases k) auto
    ultimately show ?thesis using False by (cases u) auto
  qed
  then have "trim u = rev (dropWhile isWhiteSpace (rev u))" by (simp add: trim_def)
  also have "\<dots> = u" by (simp add: u_def)
  finally show ?thesis by (simp add: u)
qed

lemma addTag_set:
  "set (addTag d e raw r prev) \<subseteq> insert (new_tag e (trim raw) r) (set prev)"
  using addTag_cases [of d e raw r prev] set_take_subset [of 1999 prev] by auto

lemma addTag_trimmed:
  assumes "\<forall>t\<in>set prev. trim (epc t) = epc t"
  shows "\<forall>t\<in>set (addTag d e raw r prev). trim (epc t) = epc t"
  using assms addTag_set [of d e raw r prev] by (auto simp: epc_new_tag trim_idem)

lemma offers_trimmed:
  "\<forall>t\<in>set prev. trim (epc t) = epc t \<Longrightarrow> \<forall>t\<in>set (offers os prev). trim (epc t) = epc t"
proof (induction os arbitrary: prev)
  case Nil
  then show ?case by simp
next
  case (Cons x os)
  have "\<forall>t\<in>set (addTag (o_dedup x) (o_env x) (o_epc x) (o_rssi x) prev). trim (epc t) = epc t"
    using Cons.prems by (rule addTag_trimmed)
  then show ?case by (simp add: Cons.IH)
qed

text \<open>
  What \<^verbatim>\<open>addTag\<close> guarantees by itself. When the flag held by the closure is set at every
  call, starting from the empty buffer, no two records of the buffer have the same
  identifier, and a call whose identifier is already in the buffer returns the buffer as it
  was. The comparison is made on the trimmed identifier; the identifiers in the buffer
  are trimmed already. The flag here is the closure's, which for the notification listener
  need not be the current setting.
\<close>

lemma offers_unique_closure_flag:
  assumes "list_all o_dedup os"
  shows "distinct (map epc (offers os [])) \<and>
         (raw \<in> epc ` set (offers os []) \<longrightarrow>
            addTag True e raw r (offers os []) = offers os []) \<and>
         (\<forall>prev::tag list. trim raw \<in> epc ` set prev \<longrightarrow> addTag True e raw r prev = prev)"
proof (intro conjI impI allI)
  show "distinct (map epc (offers os []))"
    using assms by (simp add: offers_distinct list_all_iff)
next
  assume a: "raw \<in> epc ` set (offers os [])"
  have "\<forall>t\<in>set (offers os []). trim (epc t) = epc t"
    by (rule offers_trimmed) simp
  with a have "trim raw = raw" by auto
  with a show "addTag True e raw r (offers os []) = offers os []"
    by (simp add: addTag_reject)
next
  fix prev :: "tag list"
  assume "trim raw \<in> epc ` set prev"
  then show "addTag True e raw r prev = prev" by (rule addTag_reject)
qed

lemmas eval_defs = addTag_def trim_def isWhiteSpace_def str_def slice_def new_tag_def Let_def

subsection \<open>Bounded retention\<close>

lemma take_1999_butlast: "length xs = 2000 \<Longrightarrow> take 1999 xs = butlast xs"
  by (simp add: butlast_conv_take)

lemma addTag_keep:
  "\<not> (trim raw \<noteq> [] \<and> \<not> (d \<and> trim raw \<in> epc ` set prev)) \<Longrightarrow> addTag d e raw r prev = prev"
  by (auto simp add: addTag_def Let_def list_ex_epc)

lemma sorted_rev_take: "sorted (rev xs) \<Longrightarrow> sorted (rev (take n xs))"
proof -
  assume a: "sorted (rev xs)"
  have "rev (take n xs) = drop (length xs - n) (rev xs)" by (simp add: rev_take)
  with a show ?thesis by simp
qed

lemma addTag_chrono:
  assumes "sorted (rev (map ts prev))" and "\<forall>t\<in>set prev. ts t \<le> now_ts e"
  shows "sorted (rev (map ts (addTag d e raw r prev))) \<and>
         (\<forall>t\<in>set (addTag d e raw r prev). ts t \<le> now_ts e)"
proof -
  from addTag_cases [of d e raw r prev] show ?thesis
  proof
    assume "addTag d e raw r prev = prev"
    with assms show ?thesis by simp
  next
    assume eq: "addTag d e raw r prev = new_tag e (trim raw) r # take 1999 prev"
    have s: "sorted (rev (take 1999 (map ts prev)))"
      using assms(1) by (rule sorted_rev_take)
    have b: "\<forall>t\<in>set (take 1999 prev). ts t \<le> now_ts e"
      using assms(2) set_take_subset [of 1999 prev] by auto
    from s b show ?thesis
      by (auto simp add: eq ts_new_tag take_map sorted_append)
  qed
qed

lemma offers_chrono:
  "sorted (map (\<lambda>x. now_ts (o_env x)) os) \<Longrightarrow> sorted (rev (map ts prev)) \<Longrightarrow>
   \<forall>t\<in>set prev. \<forall>x\<in>set os. ts t \<le> now_ts (o_env x) \<Longrightarrow>
   sorted (rev (map ts (offers os prev)))"
proof (induction os arbitrary: prev)
  case Nil
  then show ?case by simp
next
  case (Cons x os)
  let ?p = "addTag (o_dedup x) (o_env x) (o_epc x) (o_rssi x) prev"
  from Cons.prems have le: "\<forall>t\<in>set prev. ts t \<le> now_ts (o_env x)" by simp
  from addTag_chrono [OF Cons.prems(2) le]
  have 1: "sorted (rev (map ts ?p))" and 2: "\<forall>t\<in>set ?p. ts t \<le> now_ts (o_env x)"
    by blast+
  from Cons.prems(1) have 3: "sorted (map (\<lambda>x. now_ts (o_env x)) os)"
    and 4: "\<forall>y\<in>set os. now_ts (o_env x) \<le> now_ts (o_env y)" by simp_all
  from 2 4 have 5: "\<forall>t\<in>set ?p. \<forall>y\<in>set os. ts t \<le> now_ts (o_env y)"
    by (meson order_trans)
  from Cons.IH [OF 3 1 5] show ?case by simp
qed

lemma step_length: "length (tags s) \<le> 2000 \<Longrightarrow> length (tags (step e ev s)) \<le> 2000"
  by (cases ev)
     (auto simp: onKeyDown_def handleLine_def onCharacteristicValueChanged_def clearTags_def
        Let_def addTag_length split: option.splits)

lemma run_length: "length (tags s) \<le> 2000 \<Longrightarrow> length (tags (run evs s)) \<le> 2000"
proof (induction evs arbitrary: s)
  case Nil
  then show ?case by simp
next
  case (Cons a evs)
  obtain e ev where a: "a = (e, ev)" by (cases a)
  from Cons.prems have "length (tags (step e ev s)) \<le> 2000" by (rule step_length)
  then show ?case unfolding a by (simp add: Cons.IH)
qed

text \<open>
  Claim C3. After any sequence of offers (and after any sequence of events of the
  application) the buffer holds at most 2000 records. An offer that is taken puts its
  record at the front; below 2000 records nothing is dropped, and at 2000 records the
  one dropped is the last of the buffer, the oldest: when the offers come in the order of
  their clock readings, the time stamps never increase from the front of the buffer to
  its back. An offer that is not taken leaves the buffer as it was.
\<close>

theorem bounded_retention:
  "length (offers os []) \<le> 2000 \<and>
   length (tags (run evs init)) \<le> 2000 \<and>
   (trim raw \<noteq> [] \<and> \<not> (d \<and> trim raw \<in> epc ` set prev) \<longrightarrow>
      addTag d e raw r prev = new_tag e (trim raw) r # take 1999 prev \<and>
      (length prev < 2000 \<longrightarrow> addTag d e raw r prev = new_tag e (trim raw) r # prev) \<and>
      (length prev = 2000 \<longrightarrow>
         addTag d e raw r prev = new_tag e (trim raw) r # butlast prev \<and>
         prev = butlast prev @ [last prev])) \<and>
   (\<not> (trim raw \<noteq> [] \<and> \<not> (d \<and> trim raw \<in> epc ` set prev)) \<longrightarrow>
      addTag d e raw r prev = prev) \<and>
   (sorted (map (\<lambda>x. now_ts (o_env x)) os) \<longrightarrow> sorted (rev (map ts (offers os []))))"
proof (intro conjI impI)
  show "length (offers os []) \<le> 2000" by (rule offers_length) simp
  show "length (tags (run evs init)) \<le> 2000" by (rule run_length) (simp add: init_def)
next
  assume a: "trim raw \<noteq> [] \<and> \<not> (d \<and> trim raw \<in> epc ` set prev)"
  then show i: "addTag d e raw r prev = new_tag e (trim raw) r # take 1999 prev"
    by (simp add: addTag_insert)
  { assume "length prev < 2000"
    with i show "addTag d e raw r prev = new_tag e (trim raw) r # prev" by simp }
  { assume l: "length prev = 2000"
    with i show "addTag d e raw r prev = new_tag e (trim raw) r # butlast prev"
      by (simp add: take_1999_butlast)
    from l have "prev \<noteq> []" by auto
    then show "prev = butlast prev @ [last prev]" by simp }
next
  assume "\<not> (trim raw \<noteq> [] \<and> \<not> (d \<and> trim raw \<in> epc ` set prev))"
  then show "addTag d e raw r prev = prev" by (rule addTag_keep)
next
  assume "sorted (map (\<lambda>x. now_ts (o_env x)) os)"
  then show "sorted (rev (map ts (offers os [])))" by (rule offers_chrono) simp_all
qed

theorem bounded_retention_witness:
  "length (map (\<lambda>n. \<lparr>tag_id = real n, epc = str ''AB12'', rssi = None, ts = n\<rparr>) (rev [0..<2000]))
     = 2000 \<and>
   trim (str ''CD34'') \<noteq> [] \<and>
   addTag False \<lparr>now_id = 2000, random = 0, now_ts = 2000\<rparr> (str ''CD34'') None
     (map (\<lambda>n. \<lparr>tag_id = real n, epc = str ''AB12'', rssi = None, ts = n\<rparr>) (rev [0..<2000]))
     = new_tag \<lparr>now_id = 2000, random = 0, now_ts = 2000\<rparr> (trim (str ''CD34'')) None #
       butlast (map (\<lambda>n. \<lparr>tag_id = real n, epc = str ''AB12'', rssi = None, ts = n\<rparr>)
         (rev [0..<2000])) \<and>
   trim (str ''AB12'') \<in> epc ` set [\<lparr>tag_id = 7, epc = str ''AB12'', rssi = None, ts = 7\<rparr>] \<and>
   addTag True \<lparr>now_id = 9, random = 0, now_ts = 9\<rparr> (str ''AB12'') None
     [\<lparr>tag_id = 7, epc = str ''AB12'', rssi = None, ts = 7\<rparr>]
     = [\<lparr>tag_id = 7, epc = str ''AB12'', rssi = None, ts = 7\<rparr>] \<and>
   addTag True \<lparr>now_id = 9, random = 0, now_ts = 9\<rparr> (str ''CD34'') None
     [\<lparr>tag_id = 7, epc = str ''AB12'', rssi = None, ts = 7\<rparr>]
     = [new_tag \<lparr>now_id = 9, random = 0, now_ts = 9\<rparr> (trim (str ''CD34'')) None,
        \<lparr>tag_id = 7, epc = str ''AB12'', rssi = None, ts = 7\<rparr>] \<and>
   sorted (map (\<lambda>x. now_ts (o_env x))
     [\<lparr>o_dedup = True, o_env = \<lparr>now_id = 5, random = 1 / 4, now_ts = 6\<rparr>,
        o_epc = str ''AB12'', o_rssi = None\<rparr>,
      \<lparr>o_dedup = True, o_env = \<lparr>now_id = 8, random = 1 / 2, now_ts = 8\<rparr>,
        o_epc = str ''CD34'', o_rssi = None\<rparr>]) \<and>
   sorted (rev (map ts (offers
     [\<lparr>o_dedup = True, o_env = \<lparr>now_id = 5, random = 1 / 4, now_ts = 6\<rparr>,
        o_epc = str ''AB12'', o_rssi = None\<rparr>,
      \<lparr>o_dedup = True, o_env = \<lparr>now_id = 8, random = 1 / 2, now_ts = 8\<rparr>,
        o_epc = str ''CD34'', o_rssi = None\<rparr>] [])))"
proof -
  let ?full = "map (\<lambda>n. \<lparr>tag_id = real n, epc = str ''AB12'', rssi = None, ts = n\<rparr>) (rev [0..<2000])"
  let ?one = "[\<lparr>tag_id = 7, epc = str ''AB12'', rssi = None, ts = 7\<rparr>]"
  let ?os = "[\<lparr>o_dedup = True, o_env = \<lparr>now_id = 5, random = 1 / 4, now_ts = 6\<rparr>,
        o_epc = str ''AB12'', o_rssi = None\<rparr>,
      \<lparr>o_dedup = True, o_env = \<lparr>now_id = 8, random = 1 / 2, now_ts = 8\<rparr>,
        o_epc = str ''CD34'', o_rssi = None\<rparr>]"
  have l: "length ?full = 2000" by simp
  have c: "trim (str ''CD34'') \<noteq> []" by (simp add: trim_def isWhiteSpace_def str_def)
  have a: "trim (str ''AB12'') \<in> epc ` set ?one" by (simp add: trim_def isWhiteSpace_def str_def)
  have n: "trim (str ''CD34'') \<notin> epc ` set ?one" by (simp add: trim_def isWhiteSpace_def str_def)
  have s: "sorted (map (\<lambda>x. now_ts (o_env x)) ?os)" by simp
  note full = bounded_retention [where raw = "str ''CD34''" and d = False and prev = ?full
      and e = "\<lparr>now_id = 2000, random = 0, now_ts = 2000\<rparr>" and r = None]
  note dup = bounded_retention [where raw = "str ''AB12''" and d = True and prev = ?one
      and e = "\<lparr>now_id = 9, random = 0, now_ts = 9\<rparr>" and r = None]
  note fresh = bounded_retention [where raw = "str ''CD34''" and d = True and prev = ?one
      and e = "\<lparr>now_id = 9, random = 0, now_ts = 9\<rparr>" and r = None]
  note chrono = bounded_retention [where os = ?os]
  from full l c have 1: "addTag False \<lparr>now_id = 2000, random = 0, now_ts = 2000\<rparr> (str ''CD34'') None ?full
     = new_tag \<lparr>now_id = 2000, random = 0, now_ts = 2000\<rparr> (trim (str ''CD34'')) None # butlast ?full"
    by blast
  from dup a have 2: "addTag True \<lparr>now_id = 9, random = 0, now_ts = 9\<rparr> (str ''AB12'') None ?one = ?one"
    by blast
  from fresh c n have 3: "addTag True \<lparr>now_id = 9, random = 0, now_ts = 9\<rparr> (str ''CD34'') None ?one
      = [new_tag \<lparr>now_id = 9, random = 0, now_ts = 9\<rparr> (trim (str ''CD34'')) None,
        \<lparr>tag_id = 7, epc = str ''AB12'', rssi = None, ts = 7\<rparr>]"
    by simp
  from chrono s have 4: "sorted (rev (map ts (offers ?os [])))" by blast
  from l c 1 a 2 3 s 4 show ?thesis by blast
qed

subsection \<open>The keyboard wedge\<close>

lemmas handler_defs =
  onKeyDown_def handleLine_def normalize_def epc_filter_def class_matches_def init_def

text \<open>
  Claim C7. From the initial state (buffer of tags empty, capture on, uniqueness on) the
  key events A, B, 1, 2, Enter leave exactly one record, with identifier \<^verbatim>\<open>AB12\<close>,
  and an empty keystroke buffer (which held \<^verbatim>\<open>AB12\<close> before Enter); the same five key
  events once more change nothing: the duplicate is rejected and one record remains.
\<close>

theorem wedge_example:
  "tags (run (map (Pair e1) (map (KeyDown \<circ> str) [''A'', ''B'', ''1'', ''2'', ''Enter''])) init)
     = [new_tag e1 (str ''AB12'') None] \<and>
   buffer (run (map (Pair e1) (map (KeyDown \<circ> str) [''A'', ''B'', ''1'', ''2''])) init)
     = str ''AB12'' \<and>
   buffer (run (map (Pair e1) (map (KeyDown \<circ> str) [''A'', ''B'', ''1'', ''2'', ''Enter''])) init)
     = [] \<and>
   run (map (Pair e2) (map (KeyDown \<circ> str) [''A'', ''B'', ''1'', ''2'', ''Enter'']))
     (run (map (Pair e1) (map (KeyDown \<circ> str) [''A'', ''B'', ''1'', ''2'', ''Enter''])) init)
     = run (map (Pair e1) (map (KeyDown \<circ> str) [''A'', ''B'', ''1'', ''2'', ''Enter''])) init \<and>
   length (tags (run (map (Pair e2) (map (KeyDown \<circ> str) [''A'', ''B'', ''1'', ''2'', ''Enter'']))
     (run (map (Pair e1) (map (KeyDown \<circ> str) [''A'', ''B'', ''1'', ''2'', ''Enter''])) init)))
     = 1 \<and>
   listening init \<and> autoDedup init \<and> tags init = [] \<and> buffer init = []"
  by (simp add: handler_defs eval_defs)

lemma handleLine_closed: "\<not> listening s \<Longrightarrow> handleLine e line s = s"
  by (simp add: handleLine_def)

lemma onKeyDown_closed: "\<not> listening s \<Longrightarrow> onKeyDown e key s = s"
  by (simp add: onKeyDown_def)

lemma run_keys_closed:
  "\<not> listening s \<Longrightarrow> run (map (\<lambda>p. (fst p, KeyDown (snd p))) ks) s = s"
  by (induction ks) (simp_all add: onKeyDown_closed)

text \<open>
  Claim C9. The wedge is gated at every keystroke: while \<^verbatim>\<open>listening\<close> is false a key
  event of any kind (a character, Backspace, Enter or another key) leaves the whole state,
  and so the keystroke buffer, as it was; a line typed in part is not extended, not
  committed and not cleared, whatever number of key events arrive.
\<close>

theorem keystroke_gating:
  "\<not> listening s \<Longrightarrow>
   onKeyDown e key s = s \<and> buffer (onKeyDown e key s) = buffer s \<and>
   run (map (\<lambda>p. (fst p, KeyDown (snd p))) ks) s = s"
  by (simp add: onKeyDown_closed run_keys_closed)

theorem keystroke_gating_witness:
  "\<not> listening \<lparr>listening = False, tags = [], buffer = str ''AB'', autoDedup = True\<rparr> \<and>
   onKeyDown \<lparr>now_id = 3, random = 0, now_ts = 3\<rparr> (str ''Enter'')
     \<lparr>listening = False, tags = [], buffer = str ''AB'', autoDedup = True\<rparr>
     = \<lparr>listening = False, tags = [], buffer = str ''AB'', autoDedup = True\<rparr> \<and>
   buffer (onKeyDown \<lparr>now_id = 3, random = 0, now_ts = 3\<rparr> (str ''Enter'')
     \<lparr>listening = False, tags = [], buffer = str ''AB'', autoDedup = True\<rparr>) = str ''AB'' \<and>
   run (map (\<lambda>p. (fst p, KeyDown (snd p)))
         [(\<lparr>now_id = 1, random = 0, now_ts = 1\<rparr>, str ''1''),
          (\<lparr>now_id = 2, random = 0, now_ts = 2\<rparr>, str ''Backspace''),
          (\<lparr>now_id = 3, random = 0, now_ts = 3\<rparr>, str ''Enter'')])
     \<lparr>listening = False, tags = [], buffer = str ''AB'', autoDedup = True\<rparr>
     = \<lparr>listening = False, tags = [], buffer = str ''AB'', autoDedup = True\<rparr>"
proof -
  have h: "\<not> listening \<lparr>listening = False, tags = [], buffer = str ''AB'', autoDedup = True\<rparr>"
    by simp
  from keystroke_gating [OF h, of "\<lparr>now_id = 3, random = 0, now_ts = 3\<rparr>" "str ''Enter''"
      "[(\<lparr>now_id = 1, random = 0, now_ts = 1\<rparr>, str ''1''),
        (\<lparr>now_id = 2, random = 0, now_ts = 2\<rparr>, str ''Backspace''),
        (\<lparr>now_id = 3, random = 0, now_ts = 3\<rparr>, str ''Enter'')]"] h
  show ?thesis by simp
qed

text \<open>
  Claim C10. Identifiers are compared exactly, letter case included: with uniqueness on,
  \<^verbatim>\<open>ab12\<close> offered to a buffer that holds \<^verbatim>\<open>AB12\<close> is inserted and both records stay,
  while \<^verbatim>\<open>AB12\<close> offered again is rejected. The wedge path keeps the case of what was
  typed (the lines \<^verbatim>\<open>AB12\<close> and \<^verbatim>\<open>ab12\<close> give two records), the notification path
  writes upper-case digits, so the same bytes typed in lower case and notified give two
  records as well.
\<close>

theorem dedup_case_sensitive:
  "addTag True e (str ''ab12'') None [new_tag e0 (str ''AB12'') None]
     = [new_tag e (str ''ab12'') None, new_tag e0 (str ''AB12'') None] \<and>
   addTag True e (str ''AB12'') None [new_tag e0 (str ''AB12'') None]
     = [new_tag e0 (str ''AB12'') None] \<and>
   map epc (tags (run (map (Pair e) (map (KeyDown \<circ> str)
       [''A'', ''B'', ''1'', ''2'', ''Enter'', ''a'', ''b'', ''1'', ''2'', ''Enter''])) init))
     = [str ''ab12'', str ''AB12''] \<and>
   normalize (str ''ab12'') = str ''ab12'' \<and>
   parseNotification [0xE2, 0xAB, 0x12] = Some (str ''E2AB12'') \<and>
   map epc (tags (run
       ((e, CharacteristicValueChanged True (Some [0xE2, 0xAB, 0x12])) #
        map (Pair e) (map (KeyDown \<circ> str) [''e'', ''2'', ''a'', ''b'', ''1'', ''2'', ''Enter'']))
       init))
     = [str ''e2ab12'', str ''E2AB12'']"
proof -
  have p: "parseNotification [0xE2, 0xAB, 0x12] = Some (str ''E2AB12'')" by code_simp
  show ?thesis
    by (simp add: p onCharacteristicValueChanged_def) (simp add: handler_defs eval_defs)
qed

subsection \<open>The capture gate\<close>

text \<open>
  The wedge path reads \<^verbatim>\<open>listening\<close>, in \<^verbatim>\<open>onKeyDown\<close> and again in
  \<^verbatim>\<open>handleLine\<close>; the notification listener calls \<^verbatim>\<open>addTag\<close> without reading it.
\<close>

lemma notification_gate_blind:
  "tags (onCharacteristicValueChanged d e v (s\<lparr>listening := b\<rparr>)) =
   tags (onCharacteristicValueChanged d e v s)"
  by (simp add: onCharacteristicValueChanged_def split: option.splits)

text \<open>
  Claim C1, on the code. After the pause button has closed the gate in the initial state,
  the notification with payload 01 E2 11 22 33 44 55 66 77 88 99 AA BB CC still adds the
  record \<^verbatim>\<open>E2112233445566778899AABB\<close> to the empty buffer: the gate does not hold back
  the candidates of the notification mode.
\<close>

theorem notification_ignores_gate:
  "\<not> listening (step \<lparr>now_id = 1, random = 0, now_ts = 1\<rparr> ToggleListening init) \<and>
   tags (step \<lparr>now_id = 1, random = 0, now_ts = 1\<rparr> ToggleListening init) = [] \<and>
   tags (run
     [(\<lparr>now_id = 1, random = 0, now_ts = 1\<rparr>, ToggleListening),
      (\<lparr>now_id = 2, random = 1 / 2, now_ts = 3\<rparr>,
       CharacteristicValueChanged True (Some
         [0x01, 0xE2, 0x11, 0x22, 0x33, 0x44, 0x55, 0x66, 0x77, 0x88, 0x99, 0xAA, 0xBB, 0xCC]))]
     init)
   = [\<lparr>tag_id = 5 / 2, epc = str ''E2112233445566778899AABB'', rssi = None, ts = 3\<rparr>]"
proof -
  have p: "parseNotification
     [0x01, 0xE2, 0x11, 0x22, 0x33, 0x44, 0x55, 0x66, 0x77, 0x88, 0x99, 0xAA, 0xBB, 0xCC]
   = Some (str ''E2112233445566778899AABB'')" by code_simp
  show ?thesis
    by (simp add: p onCharacteristicValueChanged_def) (simp add: init_def eval_defs)
qed

subsection \<open>Uniqueness and the flag of the listener\<close>

text \<open>
  The wedge path reads the current \<^verbatim>\<open>autoDedup\<close> and keeps the identifiers distinct
  while it is set; so does the listener when the flag it holds is set.
\<close>

lemma wedge_unique:
  "autoDedup s \<Longrightarrow> distinct (map epc (tags s)) \<Longrightarrow>
   distinct (map epc (tags (onKeyDown e key s)))"
  by (simp add: onKeyDown_def handleLine_def Let_def addTag_distinct)

lemma notification_unique_if_flag:
  "distinct (map epc (tags s)) \<Longrightarrow>
   distinct (map epc (tags (onCharacteristicValueChanged True e v s)))"
  by (simp add: onCharacteristicValueChanged_def addTag_distinct split: option.splits)

lemma connected_with_flag_rejects:
  "map epc (tags (app (acts
      [(\<lparr>now_id = 2, random = 0, now_ts = 2\<rparr>, Connect),
       (\<lparr>now_id = 4, random = 1 / 2, now_ts = 4\<rparr>, Notification (Some [0xE2, 0x01])),
       (\<lparr>now_id = 5, random = 1 / 4, now_ts = 5\<rparr>, Notification (Some [0xE2, 0x01]))]
      start)))
   = [str ''E201'']"
proof -
  have p: "parseNotification [0xE2, 0x01] = Some (str ''E201'')" by code_simp
  show ?thesis
    by (simp add: start_def connectBLE_def p onCharacteristicValueChanged_def)
       (simp add: init_def eval_defs)
qed

text \<open>
  Claim C2, on the code. The check box is cleared, the Connect button is clicked, and the
  check box is set again; the buffer is empty and uniqueness is on. The notification with
  payload E2 01 then arrives twice. Uniqueness is on in the state before and after each of
  the two offers, yet the listener still holds the flag of the render of the click, so the
  second offer is not rejected: the buffer ends with two records of identifier
  \<^verbatim>\<open>E201\<close>. The last conjunct is the same run on the events of the application, with
  the flag of the closure written in the event.
\<close>

theorem stale_dedup_flag_duplicates:
  "listener (acts [(\<lparr>now_id = 1, random = 0, now_ts = 1\<rparr>, Dedup False),
                   (\<lparr>now_id = 2, random = 0, now_ts = 2\<rparr>, Connect),
                   (\<lparr>now_id = 3, random = 0, now_ts = 3\<rparr>, Dedup True)] start) = Some False \<and>
   autoDedup (app (acts [(\<lparr>now_id = 1, random = 0, now_ts = 1\<rparr>, Dedup False),
                   (\<lparr>now_id = 2, random = 0, now_ts = 2\<rparr>, Connect),
                   (\<lparr>now_id = 3, random = 0, now_ts = 3\<rparr>, Dedup True)] start)) \<and>
   tags (app (acts [(\<lparr>now_id = 1, random = 0, now_ts = 1\<rparr>, Dedup False),
                   (\<lparr>now_id = 2, random = 0, now_ts = 2\<rparr>, Connect),
                   (\<lparr>now_id = 3, random = 0, now_ts = 3\<rparr>, Dedup True)] start)) = [] \<and>
   autoDedup (app (acts [(\<lparr>now_id = 1, random = 0, now_ts = 1\<rparr>, Dedup False),
                   (\<lparr>now_id = 2, random = 0, now_ts = 2\<rparr>, Connect),
                   (\<lparr>now_id = 3, random = 0, now_ts = 3\<rparr>, Dedup True),
                   (\<lparr>now_id = 4, random = 1 / 2, now_ts = 4\<rparr>, Notification (Some [0xE2, 0x01]))]
                start)) \<and>
   tags (app (acts [(\<lparr>now_id = 1, random = 0, now_ts = 1\<rparr>, Dedup False),
                   (\<lparr>now_id = 2, random = 0, now_ts = 2\<rparr>, Connect),
                   (\<lparr>now_id = 3, random = 0, now_ts = 3\<rparr>, Dedup True),
                   (\<lparr>now_id = 4, random = 1 / 2, now_ts = 4\<rparr>, Notification (Some [0xE2, 0x01]))]
                start))
     = [\<lparr>tag_id = 9 / 2, epc = str ''E201'', rssi = None, ts = 4\<rparr>] \<and>
   autoDedup (app (acts [(\<lparr>now_id = 1, random = 0, now_ts = 1\<rparr>, Dedup False),
                   (\<lparr>now_id = 2, random = 0, now_ts = 2\<rparr>, Connect),
                   (\<lparr>now_id = 3, random = 0, now_ts = 3\<rparr>, Dedup True),
                   (\<lparr>now_id = 4, random = 1 / 2, now_ts = 4\<rparr>, Notification (Some [0xE2, 0x01])),
                   (\<lparr>now_id = 5, random = 1 / 4, now_ts = 5\<rparr>, Notification (Some [0xE2, 0x01]))]
                start)) \<and>
   tags (app (acts [(\<lparr>now_id = 1, random = 0, now_ts = 1\<rparr>, Dedup False),
                   (\<lparr>now_id = 2, random = 0, now_ts = 2\<rparr>, Connect),
                   (\<lparr>now_id = 3, random = 0, now_ts = 3\<rparr>, Dedup True),
                   (\<lparr>now_id = 4, random = 1 / 2, now_ts = 4\<rparr>, Notification (Some [0xE2, 0x01])),
                   (\<lparr>now_id = 5, random = 1 / 4, now_ts = 5\<rparr>, Notification (Some [0xE2, 0x01]))]
                start))
     = [\<lparr>tag_id = 21 / 4, epc = str ''E201'', rssi = None, ts = 5\<rparr>,
        \<lparr>tag_id = 9 / 2, epc = str ''E201'', rssi = None, ts = 4\<rparr>] \<and>
   \<not> distinct (map epc (tags (app (acts
                  [(\<lparr>now_id = 1, random = 0, now_ts = 1\<rparr>, Dedup False),
                   (\<lparr>now_id = 2, random = 0, now_ts = 2\<rparr>, Connect),
                   (\<lparr>now_id = 3, random = 0, now_ts = 3\<rparr>, Dedup True),
                   (\<lparr>now_id = 4, random = 1 / 2, now_ts = 4\<rparr>, Notification (Some [0xE2, 0x01])),
                   (\<lparr>now_id = 5, random = 1 / 4, now_ts = 5\<rparr>, Notification (Some [0xE2, 0x01]))]
                start)))) \<and>
   tags (run [(\<lparr>now_id = 1, random = 0, now_ts = 1\<rparr>, SetAutoDedup False),
              (\<lparr>now_id = 3, random = 0, now_ts = 3\<rparr>, SetAutoDedup True),
              (\<lparr>now_id = 4, random = 1 / 2, now_ts = 4\<rparr>,
               CharacteristicValueChanged False (Some [0xE2, 0x01])),
              (\<lparr>now_id = 5, random = 1 / 4, now_ts = 5\<rparr>,
               CharacteristicValueChanged False (Some [0xE2, 0x01]))] init)
     = [\<lparr>tag_id = 21 / 4, epc = str ''E201'', rssi = None, ts = 5\<rparr>,
        \<lparr>tag_id = 9 / 2, epc = str ''E201'', rssi = None, ts = 4\<rparr>]"
proof -
  have p: "parseNotification [0xE2, 0x01] = Some (str ''E201'')" by code_simp
  show ?thesis
    by (simp add: start_def connectBLE_def p onCharacteristicValueChanged_def)
       (simp add: init_def eval_defs)
qed

subsection \<open>Hexadecimal encoding and truncated fields\<close>

lemma nat_below_16:
  "d < 16 \<Longrightarrow> d \<in> {0, 1, 2, 3, 4, 5, 6, 7, 8, 9, 10, 11, 12, 13, 14, 15::nat}"
  by simp arith

lemma upper_digit: "d < 16 \<Longrightarrow> toUpperCase [digitChar d] = [spec_hex_digits ! d]"
  by (drule nat_below_16) (auto simp: toUpperCase_def digitChar_def spec_hex_digits_def str_def)

lemma lower_digit: "d < 16 \<Longrightarrow> digitChar d \<in> set (str ''0123456789abcdef'')"
  by (drule nat_below_16) (auto simp: digitChar_def str_def)

lemma toUpperCase_append: "toUpperCase (xs @ ys) = toUpperCase xs @ toUpperCase ys"
  by (simp add: toUpperCase_def)

lemma toString16_byte:
  "n < 256 \<Longrightarrow>
   toString16 n =
     (if n < 16 then [digitChar n] else [digitChar (n div 16), digitChar (n mod 16)])"
  by (subst toString16.simps) (simp add: less_mult_imp_div_less toString16.simps)

lemma byte_digits: "unat (b :: byte) div 16 < 16 \<and> unat b mod 16 < 16"
proof -
  have "unat b < 256" using unsigned_less [of b] by simp
  then show ?thesis by simp
qed

lemma hexByte_digits: "hexByte b = [digitChar (unat b div 16), digitChar (unat b mod 16)]"
proof -
  have "unat b < 256" using unsigned_less [of b] by simp
  then have ts: "toString16 (unat b) =
      (if unat b < 16 then [digitChar (unat b)]
       else [digitChar (unat b div 16), digitChar (unat b mod 16)])"
    by (rule toString16_byte)
  show ?thesis
  proof (cases "unat b < 16")
    case True
    then have "digitChar (unat b div 16) = 0x30" by (simp add: digitChar_def)
    with True show ?thesis by (simp add: hexByte_def ts padStart_def str_def)
  next
    case False
    then show ?thesis by (simp add: hexByte_def ts padStart_def)
  qed
qed

lemma hex_lower_chars: "set (concat (map hexByte bs)) \<subseteq> set (str ''0123456789abcdef'')"
  using byte_digits by (auto simp: hexByte_digits intro: lower_digit)

lemma hexByte_upper: "toUpperCase (hexByte b) = spec_hex_byte b"
proof -
  from byte_digits [of b] have d: "unat b div 16 < 16" "unat b mod 16 < 16" by simp_all
  have "toUpperCase (hexByte b) =
      toUpperCase ([digitChar (unat b div 16)] @ [digitChar (unat b mod 16)])"
    by (simp add: hexByte_digits)
  also have "\<dots> = spec_hex_byte b"
    unfolding toUpperCase_append upper_digit [OF d(1)] upper_digit [OF d(2)]
    by (simp add: spec_hex_byte_def)
  finally show ?thesis .
qed

lemma toUpperCase_hex: "toUpperCase (concat (map hexByte bs)) = spec_hex bs"
proof (induction bs)
  case Nil
  show ?case by (simp add: toUpperCase_def spec_hex_def)
next
  case (Cons b bs)
  then show ?case by (simp add: toUpperCase_append hexByte_upper spec_hex_def)
qed

lemma length_spec_hex: "length (spec_hex bs) = 2 * length bs"
  by (induction bs) (simp_all add: spec_hex_def spec_hex_byte_def)

lemma spec_hex_digit_mem: "d < 16 \<Longrightarrow> spec_hex_digits ! d \<in> set spec_hex_digits"
proof -
  have "length spec_hex_digits = 16" by (simp add: spec_hex_digits_def str_def)
  then show "d < 16 \<Longrightarrow> spec_hex_digits ! d \<in> set spec_hex_digits" by (simp only: nth_mem)
qed

lemma spec_hex_chars: "set (spec_hex bs) \<subseteq> set spec_hex_digits"
proof -
  have "set (spec_hex_byte b) \<subseteq> set spec_hex_digits" for b
    using byte_digits [of b] by (simp add: spec_hex_byte_def spec_hex_digit_mem)
  then show ?thesis by (auto simp: spec_hex_def)
qed

lemma hex_digit_not_space: "c \<in> set spec_hex_digits \<Longrightarrow> \<not> isWhiteSpace c"
  by (auto simp: spec_hex_digits_def str_def isWhiteSpace_def)

lemma trim_id: "\<forall>c\<in>set s. \<not> isWhiteSpace c \<Longrightarrow> trim s = s"
proof -
  assume a: "\<forall>c\<in>set s. \<not> isWhiteSpace c"
  then have "dropWhile isWhiteSpace s = s" by (cases s) simp_all
  moreover from a have "dropWhile isWhiteSpace (rev s) = rev s"
    by (cases "rev s") (simp, metis dropWhile_eq_self_iff list.set_intros(1) set_rev list.sel(1))
  ultimately show ?thesis by (simp add: trim_def)
qed

lemma trim_spec_hex: "trim (spec_hex bs) = spec_hex bs"
  using spec_hex_chars [of bs] by (intro trim_id) (auto dest: hex_digit_not_space)

lemma parse_found:
  assumes "indexOf data 0xE2 = int i"
  shows "parseNotification data = Some (spec_hex (take 12 (drop i data)))"
proof -
  have "slice data (int i) (int i + 12) = take 12 (drop i data)"
    using slice_window [of "int i" 12 data] by simp
  with assms show ?thesis by (simp add: parseNotification_def toUpperCase_hex)
qed

lemma parse_absent: "0xE2 \<notin> set data \<Longrightarrow> parseNotification data = None"
  by (simp add: parseNotification_def indexOf_absent)

text \<open>
  Claim C8. When the first \<^verbatim>\<open>0xE2\<close> of a payload stands at offset \<open>i\<close> with fewer than
  twelve bytes left from there, the parser returns a result: the identifier is the
  upper-case hexadecimal of exactly the bytes from \<open>i\<close> to the end, two characters for
  each byte, and the listener offers it to the buffer, where it is inserted at the front
  unless uniqueness rejects it as a duplicate.
\<close>

theorem truncated_field_accepted:
  assumes "indexOf data 0xE2 = int i" and "length data - i < 12"
  shows "i < length data \<and> data ! i = 0xE2 \<and> 0xE2 \<notin> set (take i data) \<and>
         parseNotification data = Some (spec_hex (drop i data)) \<and>
         length (spec_hex (drop i data)) = 2 * (length data - i) \<and>
         onCharacteristicValueChanged d e (Some data) s =
           s\<lparr>tags := addTag d e (spec_hex (drop i data)) None (tags s)\<rparr> \<and>
         (\<not> (d \<and> spec_hex (drop i data) \<in> epc ` set (tags s)) \<longrightarrow>
            tags (onCharacteristicValueChanged d e (Some data) s) =
              new_tag e (spec_hex (drop i data)) None # take 1999 (tags s))"
proof -
  let ?c = "spec_hex (drop i data)"
  from indexOf_found [OF assms(1)]
  have f: "i < length data" "data ! i = 0xE2" "0xE2 \<notin> set (take i data)" by simp_all
  from assms(2) have "take 12 (drop i data) = drop i data" by simp
  with parse_found [OF assms(1)] have p: "parseNotification data = Some ?c" by simp
  have l: "length ?c = 2 * (length data - i)" by (simp add: length_spec_hex)
  from p have h: "onCharacteristicValueChanged d e (Some data) s =
      s\<lparr>tags := addTag d e ?c None (tags s)\<rparr>"
    by (simp add: onCharacteristicValueChanged_def)
  from f(1) l have ne: "trim ?c \<noteq> []" by (auto simp: trim_spec_hex)
  have a: "tags (onCharacteristicValueChanged d e (Some data) s) =
      new_tag e ?c None # take 1999 (tags s)"
    if "\<not> (d \<and> ?c \<in> epc ` set (tags s))"
    using addTag_insert [OF ne, of d "tags s" e None] that by (simp add: h trim_spec_hex)
  from f p l h a show ?thesis by blast
qed

theorem truncated_field_accepted_witness:
  "indexOf [0x01, 0xE2, 0x11 :: byte] 0xE2 = int 1 \<and>
   length [0x01, 0xE2, 0x11 :: byte] - 1 < 12 \<and>
   parseNotification [0x01, 0xE2, 0x11] = Some (str ''E211'') \<and>
   tags (onCharacteristicValueChanged True \<lparr>now_id = 4, random = 1 / 2, now_ts = 5\<rparr>
      (Some [0x01, 0xE2, 0x11]) init)
     = [\<lparr>tag_id = 9 / 2, epc = str ''E211'', rssi = None, ts = 5\<rparr>]"
proof -
  have i: "indexOf [0x01, 0xE2, 0x11 :: byte] 0xE2 = int 1" by simp
  have l: "length [0x01, 0xE2, 0x11 :: byte] - 1 < 12" by simp
  have c: "spec_hex (drop 1 [0x01, 0xE2, 0x11]) = str ''E211''" by code_simp
  have n: "\<not> (True \<and> str ''E211'' \<in> epc ` set (tags init))" by (simp add: init_def)
  note w = truncated_field_accepted
    [OF i l, of True "\<lparr>now_id = 4, random = 1 / 2, now_ts = 5\<rparr>" init, unfolded c]
  from w have p: "parseNotification [0x01, 0xE2, 0x11] = Some (str ''E211'')" by blast
  from w n have t:
    "tags (onCharacteristicValueChanged True \<lparr>now_id = 4, random = 1 / 2, now_ts = 5\<rparr>
       (Some [0x01, 0xE2, 0x11]) init)
     = new_tag \<lparr>now_id = 4, random = 1 / 2, now_ts = 5\<rparr> (str ''E211'') None #
       take 1999 (tags init)"
    by blast
  have "take 1999 (tags init) = []" by (simp add: init_def)
  with i l p t show ?thesis by (simp add: new_tag_def)
qed

end
